theory Spec2Isabelle
  imports Main "HOL-Library.Code_Target_Nat"
begin

section \<open>The Dashboard view of src/components/pages/Dashboard.jsx\<close>

text \<open>
  The component keeps five pieces of React state (stats, recentActivities, alerts,
  isLoading, error) and has three asynchronous operations: \<^verbatim>\<open>loadDashboardData\<close>,
  \<^verbatim>\<open>handleDismissAlert\<close> and \<^verbatim>\<open>handleCompleteTask\<close>. The embedding passes the state
  explicitly. Everything the operations do to the outside (service calls, state setter
  calls, toasts, console output) is appended, in program order, to a trace, so that
  statements about what happens before what are statements about that trace.
\<close>

subsection \<open>JavaScript numbers\<close>

text \<open>
  A JavaScript number is an IEEE 754 double. Every finite double is a whole multiple of
  the smallest positive one, 2 to the power -1074, so a finite number is represented by
  that multiple: \<open>Finite k\<close> is the number k times 2 to the power -1074, and a double
  is such a \<open>k\<close> whose magnitude needs at most 53 significant bits and stays below 2 to
  the power 1024. \<open>Finite 0\<close> is +0, and -0 has a constructor of its own.
\<close>

datatype js_number = Finite int | NegZero | PosInfinity | NegInfinity | NaN

definition unit_exp :: nat where
  "unit_exp = 1074"

text \<open>The whole number \<open>n\<close> as a number: it is a double when its magnitude is at most 2 to the power 53.\<close>

definition js_int :: "int \<Rightarrow> js_number" where
  "js_int n = Finite (n * 2 ^ unit_exp)"

text \<open>The number of bits of a natural number.\<close>

fun bit_length :: "nat \<Rightarrow> nat" where
  "bit_length n = (if n = 0 then 0 else Suc (bit_length (n div 2)))"

declare bit_length.simps [simp del]

text \<open>
  Rounding a magnitude to 53 significant bits, to the nearest candidate and to the one
  with an even significand when two are equally near: the \<open>s\<close> bits beyond the 53 are
  cut off, and the significand \<open>q\<close> goes up by one when the part cut off is more than
  half a unit of \<open>q\<close>, or exactly half with \<open>q\<close> odd.
\<close>

definition round_mag :: "nat \<Rightarrow> nat" where
  "round_mag a =
     (if bit_length a \<le> 53 then a
      else
        let s = bit_length a - 53;
            q = a div 2 ^ s;
            r = a mod 2 ^ s;
            half = 2 ^ (s - 1)
        in (if half < r \<or> (r = half \<and> odd q) then q + 1 else q) * 2 ^ s)"

definition round_int :: "int \<Rightarrow> int" where
  "round_int k = (if k < 0 then - int (round_mag (nat (- k))) else int (round_mag (nat k)))"

text \<open>The double nearest to an exact result; a rounded magnitude of 2 to the power 1024 or more overflows.\<close>

definition round_double :: "int \<Rightarrow> js_number" where
  "round_double k =
     (let r = round_int k
      in if 2 ^ (1024 + unit_exp) \<le> \<bar>r\<bar>
         then (if k < 0 then NegInfinity else PosInfinity)
         else Finite r)"

fun units :: "js_number \<Rightarrow> int" where
  "units (Finite k) = k"
| "units _ = 0"

text \<open>
  The operator \<^verbatim>\<open>+\<close> on two numbers: NaN is contagious, opposite infinities give NaN,
  an infinity absorbs every finite number, -0 + -0 is -0, and every other sum is the
  exact sum rounded, an exact zero being +0.
\<close>

definition js_add :: "js_number \<Rightarrow> js_number \<Rightarrow> js_number" where
  "js_add a b =
     (if a = NaN \<or> b = NaN then NaN
      else if a = PosInfinity then (if b = NegInfinity then NaN else PosInfinity)
      else if a = NegInfinity then (if b = PosInfinity then NaN else NegInfinity)
      else if b = PosInfinity \<or> b = NegInfinity then b
      else if a = NegZero \<and> b = NegZero then NegZero
      else round_double (units a + units b))"

subsection \<open>Entities read from the services\<close>

text \<open>
  Only the fields the component reads are modelled. Identifiers are integers. A deal's
  value is a JavaScript number. An activity's
  timestamp is the instant that \<^verbatim>\<open>new Date(a.timestamp)\<close> denotes, in milliseconds
  since the epoch, which is the number the subtraction in the sort comparator works on.
  An alert's \<^verbatim>\<open>taskId\<close> is optional.
\<close>

record contact =
  contact_Id :: int

record deal =
  deal_value :: js_number
  deal_stage :: string

record task =
  completed :: bool

record activity =
  activity_Id :: int
  timestamp :: int

record alert =
  alert_Id :: int
  alert_type :: string
  taskId :: "int option"

subsection \<open>View state\<close>

record dashboard_stats =
  totalContacts :: nat
  totalDeals :: nat
  pipelineValue :: js_number
  completedTasks :: nat

record dashboard =
  stats :: dashboard_stats
  recentActivities :: "activity list"
  alerts :: "alert list"
  isLoading :: bool
  error :: string

text \<open>The arguments of the five \<^verbatim>\<open>useState\<close> calls (lines 19 to 28).\<close>

definition initial_dashboard :: dashboard where
  "initial_dashboard =
     \<lparr>stats = \<lparr>totalContacts = 0, totalDeals = 0, pipelineValue = Finite 0, completedTasks = 0\<rparr>,
      recentActivities = [],
      alerts = [],
      isLoading = True,
      error = ''''\<rparr>"

subsection \<open>Effects\<close>

datatype service_call =
    ContactGetAll
  | DealGetAll
  | TaskGetAll
  | ActivityGetAll
  | AlertGetAll
  | DismissAlert int
  | CompleteTask int

datatype event =
    Call service_call
  | SetStats dashboard_stats
  | SetRecentActivities "activity list"
  | SetAlerts "alert list"
  | SetIsLoading bool
  | SetError string
  | ToastSuccess string
  | ToastError string
  | ConsoleError string string

record world =
  view :: dashboard
  trace :: "event list"

definition initial_world :: world where
  "initial_world = \<lparr>view = initial_dashboard, trace = []\<rparr>"

text \<open>
  A settled promise is either rejected with a reason (\<open>Inl\<close>) or fulfilled with a value
  (\<open>Inr\<close>). A piece of JavaScript is a function from the world to its completion and the
  world it leaves: \<open>Inl e\<close> is an exception \<open>e\<close> in flight, \<open>Inr v\<close> a normal completion.
\<close>

type_synonym 'a settled = "string + 'a"

type_synonym 'a js = "world \<Rightarrow> (string + 'a) \<times> world"

definition ret :: "'a \<Rightarrow> 'a js" where
  "ret v w = (Inr v, w)"

definition throw :: "string \<Rightarrow> 'a js" where
  "throw e w = (Inl e, w)"

definition and_then :: "'a js \<Rightarrow> ('a \<Rightarrow> 'b js) \<Rightarrow> 'b js" where
  "and_then m f w = (case m w of (Inl e, w') \<Rightarrow> (Inl e, w') | (Inr v, w') \<Rightarrow> f v w')"

text \<open>A block of statements runs them in order and stops at the first exception.\<close>

fun block :: "unit js list \<Rightarrow> unit js" where
  "block [] w = (Inr (), w)"
| "block (s # ss) w = (case s w of (Inl e, w') \<Rightarrow> (Inl e, w') | (Inr _, w') \<Rightarrow> block ss w')"

definition try_catch :: "'a js \<Rightarrow> (string \<Rightarrow> 'a js) \<Rightarrow> 'a js" where
  "try_catch body handler w =
     (case body w of (Inl e, w') \<Rightarrow> handler e w' | (Inr v, w') \<Rightarrow> (Inr v, w'))"

text \<open>
  \<^verbatim>\<open>finally\<close> runs on both paths and keeps the completion of what it wraps, unless it
  throws itself.
\<close>

definition try_finally :: "'a js \<Rightarrow> unit js \<Rightarrow> 'a js" where
  "try_finally body fin w =
     (case body w of (r, w') \<Rightarrow>
        (case fin w' of (Inl e, w'') \<Rightarrow> (Inl e, w'') | (Inr _, w'') \<Rightarrow> (r, w'')))"

text \<open>\<^verbatim>\<open>await p\<close> on a settled promise: a rejection is thrown at the await.\<close>

definition await :: "'a settled \<Rightarrow> 'a js" where
  "await p = (case p of Inl reason \<Rightarrow> throw reason | Inr v \<Rightarrow> ret v)"

definition emit :: "event \<Rightarrow> unit js" where
  "emit ev w = (Inr (), w\<lparr>trace := trace w @ [ev]\<rparr>)"

definition call :: "service_call \<Rightarrow> unit js" where
  "call c = emit (Call c)"

definition toast_success :: "string \<Rightarrow> unit js" where
  "toast_success msg = emit (ToastSuccess msg)"

definition toast_error :: "string \<Rightarrow> unit js" where
  "toast_error msg = emit (ToastError msg)"

definition console_error :: "string \<Rightarrow> string \<Rightarrow> unit js" where
  "console_error label err = emit (ConsoleError label err)"

text \<open>The state setters. Each one updates its field and records the call.\<close>

definition setStats :: "dashboard_stats \<Rightarrow> unit js" where
  "setStats v w = (Inr (), w\<lparr>view := (view w)\<lparr>stats := v\<rparr>, trace := trace w @ [SetStats v]\<rparr>)"

definition setRecentActivities :: "activity list \<Rightarrow> unit js" where
  "setRecentActivities v w =
     (Inr (), w\<lparr>view := (view w)\<lparr>recentActivities := v\<rparr>,
                trace := trace w @ [SetRecentActivities v]\<rparr>)"

definition setAlerts :: "alert list \<Rightarrow> unit js" where
  "setAlerts v w = (Inr (), w\<lparr>view := (view w)\<lparr>alerts := v\<rparr>, trace := trace w @ [SetAlerts v]\<rparr>)"

text \<open>The functional form \<^verbatim>\<open>setAlerts(prev => f(prev))\<close>.\<close>

definition setAlerts_prev :: "(alert list \<Rightarrow> alert list) \<Rightarrow> unit js" where
  "setAlerts_prev f w = setAlerts (f (alerts (view w))) w"

definition setIsLoading :: "bool \<Rightarrow> unit js" where
  "setIsLoading v w =
     (Inr (), w\<lparr>view := (view w)\<lparr>isLoading := v\<rparr>, trace := trace w @ [SetIsLoading v]\<rparr>)"

definition setError :: "string \<Rightarrow> unit js" where
  "setError v w = (Inr (), w\<lparr>view := (view w)\<lparr>error := v\<rparr>, trace := trace w @ [SetError v]\<rparr>)"

subsection \<open>Array.prototype.sort\<close>

text \<open>
  \<^verbatim>\<open>sort\<close> with a comparator is stable, and puts \<open>a\<close> before \<open>b\<close> when the comparator is
  negative on \<open>(a, b)\<close>. Any stable sort gives the same array for a consistent
  comparator; the model is the insertion sort that keeps equal elements in their
  original order.
\<close>

fun sort_place :: "('a \<Rightarrow> 'a \<Rightarrow> int) \<Rightarrow> 'a \<Rightarrow> 'a list \<Rightarrow> 'a list" where
  "sort_place cmp a [] = [a]"
| "sort_place cmp a (b # bs) =
     (if cmp a b \<le> 0 then a # b # bs else b # sort_place cmp a bs)"

fun array_sort :: "('a \<Rightarrow> 'a \<Rightarrow> int) \<Rightarrow> 'a list \<Rightarrow> 'a list" where
  "array_sort cmp [] = []"
| "array_sort cmp (a # as) = sort_place cmp a (array_sort cmp as)"

text \<open>\<^verbatim>\<open>xs.includes(x)\<close> on an array of strings.\<close>

definition array_includes :: "'a list \<Rightarrow> 'a \<Rightarrow> bool" where
  "array_includes xs x = (x \<in> set xs)"

subsection \<open>loadDashboardData (lines 33 to 71)\<close>

text \<open>What the five \<^verbatim>\<open>getAll\<close> promises settle to.\<close>

record reads =
  contacts_read :: "contact list settled"
  deals_read :: "deal list settled"
  tasks_read :: "task list settled"
  activities_read :: "activity list settled"
  alerts_read :: "alert list settled"

text \<open>
  Building the argument of \<^verbatim>\<open>Promise.all\<close> issues the five reads, in array order
  (lines 39 to 43).
\<close>

definition issue_reads :: "unit js" where
  "issue_reads =
     block [call ContactGetAll, call DealGetAll, call TaskGetAll, call ActivityGetAll,
            call AlertGetAll]"

text \<open>
  \<^verbatim>\<open>await Promise.all([...])\<close>: the array of the five results when all are fulfilled, a
  rejection otherwise. Which rejection wins when several reads reject depends on timing;
  the model reports the first in array order. The reason only reaches the console.
\<close>

definition await_all ::
  "reads \<Rightarrow> (contact list \<times> deal list \<times> task list \<times> activity list \<times> alert list) js" where
  "await_all rs =
     and_then (await (contacts_read rs)) (\<lambda>contacts.
     and_then (await (deals_read rs)) (\<lambda>deals.
     and_then (await (tasks_read rs)) (\<lambda>tasks.
     and_then (await (activities_read rs)) (\<lambda>activities.
     and_then (await (alerts_read rs)) (\<lambda>alertsData.
       ret (contacts, deals, tasks, activities, alertsData))))))"

text \<open>Lines 46 to 64, the rest of the \<^verbatim>\<open>try\<close> block after the await.\<close>

definition load_apply ::
  "contact list \<times> deal list \<times> task list \<times> activity list \<times> alert list \<Rightarrow> unit js" where
  "load_apply = (\<lambda>(contacts, deals, tasks, activities, alertsData).
     let activeDeals = filter (\<lambda>deal. \<not> array_includes [''Won'', ''Lost''] (deal_stage deal)) deals;
         pipelineValue' = foldl (\<lambda>sum deal. js_add sum (deal_value deal)) (Finite 0) activeDeals;
         completedTasks' = length (filter (\<lambda>task. completed task) tasks);
         sortedActivities =
           take 10 (array_sort (\<lambda>a b. timestamp b - timestamp a) activities)
     in block [
          setStats \<lparr>totalContacts = length contacts,
                    totalDeals = length activeDeals,
                    pipelineValue = pipelineValue',
                    completedTasks = completedTasks'\<rparr>,
          setRecentActivities sortedActivities,
          setAlerts alertsData])"

text \<open>Lines 66 and 67, the \<^verbatim>\<open>catch\<close> block.\<close>

definition load_catch :: "string \<Rightarrow> unit js" where
  "load_catch err =
     block [setError ''Failed to load dashboard data'',
            console_error ''Dashboard error:'' err]"

definition loadDashboardData :: "reads \<Rightarrow> unit js" where
  "loadDashboardData rs =
     block [
       setIsLoading True,
       setError '''',
       try_finally
         (try_catch
            (and_then (and_then issue_reads (\<lambda>_. await_all rs)) load_apply)
            load_catch)
         (setIsLoading False)]"

text \<open>
  An async function runs synchronously up to its first await and the rest runs once the
  awaited promise has settled. \<open>loadDashboardData_begin\<close> is the first part of the
  loader, \<open>loadDashboardData_resume\<close> the second.
\<close>

definition loadDashboardData_begin :: "unit js" where
  "loadDashboardData_begin = block [setIsLoading True, setError '''', issue_reads]"

definition loadDashboardData_resume :: "reads \<Rightarrow> unit js" where
  "loadDashboardData_resume rs =
     try_finally (try_catch (and_then (await_all rs) load_apply) load_catch)
       (setIsLoading False)"

subsection \<open>What is rendered (lines 106 and 107)\<close>

datatype rendered = Loading | ErrorView string | DashboardPage

text \<open>A non-empty string is truthy.\<close>

definition render :: "dashboard \<Rightarrow> rendered" where
  "render d =
     (if isLoading d then Loading
      else if error d \<noteq> '''' then ErrorView (error d)
      else DashboardPage)"

text \<open>The error view's \<^verbatim>\<open>onRetry\<close> property is the loader itself.\<close>

definition onRetry :: "reads \<Rightarrow> unit js" where
  "onRetry = loadDashboardData"

subsection \<open>handleDismissAlert (lines 73 to 82)\<close>

definition handleDismissAlert :: "int \<Rightarrow> unit settled \<Rightarrow> unit js" where
  "handleDismissAlert alertId outcome =
     try_catch
       (block [
          call (DismissAlert alertId),
          await outcome,
          setAlerts_prev (filter (\<lambda>alert. alert_Id alert \<noteq> alertId)),
          toast_success ''Alert dismissed''])
       (\<lambda>err. block [
          console_error ''Dismiss alert error:'' err,
          toast_error ''Failed to dismiss alert''])"

subsection \<open>handleCompleteTask (lines 84 to 95)\<close>

text \<open>
  The call \<^verbatim>\<open>loadDashboardData()\<close> on line 89 is not awaited: the loader runs up to its
  own await, the handler goes on with the toast, and the loader resumes later.
\<close>

definition handleCompleteTask :: "int \<Rightarrow> unit settled \<Rightarrow> unit js" where
  "handleCompleteTask task_id outcome =
     try_catch
       (block [
          call (CompleteTask task_id),
          await outcome,
          setAlerts_prev (filter (\<lambda>alert. taskId alert \<noteq> Some task_id)),
          loadDashboardData_begin,
          toast_success ''Task completed successfully''])
       (\<lambda>err. block [
          console_error ''Complete task error:'' err,
          toast_error ''Failed to complete task''])"

text \<open>
  The handler followed by the rest of the reload it started, if it started one: the
  reload is pending exactly when the service call was fulfilled.
\<close>

definition completeTask_and_reload :: "int \<Rightarrow> unit settled \<Rightarrow> reads \<Rightarrow> unit js" where
  "completeTask_and_reload task_id outcome rs =
     and_then (handleCompleteTask task_id outcome) (\<lambda>_.
       case outcome of Inl _ \<Rightarrow> ret () | Inr _ \<Rightarrow> loadDashboardData_resume rs)"

subsection \<open>Sequences of operations\<close>

datatype operation =
    LoadOp reads
  | DismissOp int "unit settled"
  | CompleteOp int "unit settled" reads

fun perform :: "operation \<Rightarrow> world \<Rightarrow> world" where
  "perform (LoadOp rs) w = snd (loadDashboardData rs w)"
| "perform (DismissOp alertId outcome) w = snd (handleDismissAlert alertId outcome w)"
| "perform (CompleteOp task_id outcome rs) w = snd (completeTask_and_reload task_id outcome rs w)"

definition run_ops :: "operation list \<Rightarrow> world \<Rightarrow> world" where
  "run_ops ops w = foldl (\<lambda>w' op. perform op w') w ops"

subsection \<open>Vocabulary for the statements\<close>

text \<open>The five reads all fulfilled, with the given collections.\<close>

definition fulfilled ::
  "contact list \<Rightarrow> deal list \<Rightarrow> task list \<Rightarrow> activity list \<Rightarrow> alert list \<Rightarrow> reads" where
  "fulfilled cs ds ts acts als =
     \<lparr>contacts_read = Inr cs, deals_read = Inr ds, tasks_read = Inr ts,
      activities_read = Inr acts, alerts_read = Inr als\<rparr>"

definition some_read_rejects :: "reads \<Rightarrow> bool" where
  "some_read_rejects rs =
     (isl (contacts_read rs) \<or> isl (deals_read rs) \<or> isl (tasks_read rs) \<or>
      isl (activities_read rs) \<or> isl (alerts_read rs))"

text \<open>The reason of the first rejected read in array order, if any read is rejected.\<close>

definition first_rejection :: "reads \<Rightarrow> string option" where
  "first_rejection rs =
     (case contacts_read rs of Inl e \<Rightarrow> Some e | Inr _ \<Rightarrow>
     (case deals_read rs of Inl e \<Rightarrow> Some e | Inr _ \<Rightarrow>
     (case tasks_read rs of Inl e \<Rightarrow> Some e | Inr _ \<Rightarrow>
     (case activities_read rs of Inl e \<Rightarrow> Some e | Inr _ \<Rightarrow>
     (case alerts_read rs of Inl e \<Rightarrow> Some e | Inr _ \<Rightarrow> None)))))"

section \<open>Properties\<close>

subsection \<open>Number arithmetic\<close>

lemma bit_length_0: "bit_length 0 = 0"
  by (simp add: bit_length.simps)

lemma bit_length_pos: "0 < a \<Longrightarrow> bit_length a = Suc (bit_length (a div 2))"
  by (subst bit_length.simps) simp

lemma bit_length_le_iff: "bit_length a \<le> n \<longleftrightarrow> a < 2 ^ n"
proof (induction a arbitrary: n rule: bit_length.induct)
  case (1 a)
  show ?case
  proof (cases "a = 0")
    case True
    then show ?thesis by (simp add: bit_length_0)
  next
    case False
    show ?thesis
    proof (cases n)
      case 0
      with False show ?thesis by (simp add: bit_length_pos)
    next
      case (Suc m)
      have "bit_length a \<le> Suc m \<longleftrightarrow> bit_length (a div 2) \<le> m"
        using False by (simp add: bit_length_pos)
      also have "\<dots> \<longleftrightarrow> a div 2 < 2 ^ m" using False by (rule "1.IH")
      also have "\<dots> \<longleftrightarrow> a < 2 ^ Suc m" by auto
      finally show ?thesis by (simp add: Suc)
    qed
  qed
qed

lemma bit_length_eq: "2 ^ n \<le> a \<Longrightarrow> a < 2 ^ Suc n \<Longrightarrow> bit_length a = Suc n"
proof -
  assume lo: "2 ^ n \<le> a" and hi: "a < 2 ^ Suc n"
  from hi have "bit_length a \<le> Suc n" by (simp only: bit_length_le_iff)
  moreover from lo have "\<not> bit_length a \<le> n" by (simp only: bit_length_le_iff not_less)
  ultimately show ?thesis by simp
qed

lemma bit_length_scale: "0 < a \<Longrightarrow> bit_length (a * 2 ^ j) = bit_length a + j"
proof (induction j)
  case 0
  then show ?case by simp
next
  case (Suc j)
  then have "bit_length (a * 2 ^ Suc j) = Suc (bit_length ((a * 2 ^ Suc j) div 2))"
    by (intro bit_length_pos) simp
  also have "(a * 2 ^ Suc j) div 2 = a * 2 ^ j" by simp
  finally show ?case using Suc by simp
qed

lemma round_mag_small: "a < 2 ^ 53 \<Longrightarrow> round_mag a = a"
  using bit_length_le_iff [of a 53] by (simp add: round_mag_def)

lemma round_mag_scale: "round_mag (a * 2 ^ j) = round_mag a * 2 ^ j"
proof (cases "a = 0")
  case True
  then show ?thesis by (simp add: round_mag_def bit_length_0)
next
  case False
  then have len: "bit_length (a * 2 ^ j) = bit_length a + j" by (simp add: bit_length_scale)
  show ?thesis
  proof (cases "bit_length a \<le> 53")
    case small: True
    show ?thesis
    proof (cases "bit_length a + j \<le> 53")
      case True
      with small len show ?thesis by (simp add: round_mag_def)
    next
      case False
      define s where "s = bit_length a + j - 53"
      from False small have sj: "s \<le> j" and s1: "1 \<le> s" by (simp_all add: s_def)
      have split: "a * 2 ^ j = (a * 2 ^ (j - s)) * 2 ^ s"
        using sj by (simp add: power_add [symmetric] mult.assoc)
      have q: "(a * 2 ^ j) div 2 ^ s = a * 2 ^ (j - s)" by (subst split) simp
      have r: "(a * 2 ^ j) mod 2 ^ s = 0" by (subst split) simp
      have half: "(0::nat) < 2 ^ (s - 1)" by simp
      have ra: "round_mag a = a" using small by (simp add: round_mag_def)
      have "round_mag (a * 2 ^ j) = (a * 2 ^ (j - s)) * 2 ^ s"
        using False half unfolding round_mag_def len Let_def s_def [symmetric] q r
        by simp
      also have "\<dots> = a * 2 ^ j" by (rule split [symmetric])
      finally show ?thesis by (simp only: ra)
    qed
  next
    case big: False
    define s where "s = bit_length a - 53"
    from big have s1: "1 \<le> s" by (simp add: s_def)
    have s': "bit_length a + j - 53 = s + j" using big by (simp add: s_def)
    have q: "(a * 2 ^ j) div 2 ^ (s + j) = a div 2 ^ s"
      by (simp add: power_add)
    have r: "(a * 2 ^ j) mod 2 ^ (s + j) = (a mod 2 ^ s) * 2 ^ j"
      by (simp add: power_add)
    have half: "(2::nat) ^ (s + j - 1) = 2 ^ (s - 1) * 2 ^ j"
      using s1 by (simp add: power_add [symmetric])
    have big': "\<not> bit_length a + j \<le> 53" using big by simp
    show ?thesis
      using big big'
      unfolding round_mag_def len Let_def s' q r half s_def [symmetric]
      by (simp add: power_add)
  qed
qed

lemma round_mag_whole: "a \<le> 2 ^ 53 \<Longrightarrow> round_mag a = a"
proof (cases "a < 2 ^ 53")
  case True
  then show ?thesis by (rule round_mag_small)
next
  case False
  assume "a \<le> 2 ^ 53"
  with False have a: "a = 1 * 2 ^ 53" by simp
  have "round_mag (1 * 2 ^ 53) = round_mag 1 * 2 ^ 53" by (rule round_mag_scale)
  also have "round_mag 1 = 1" by (rule round_mag_small) simp
  finally show ?thesis by (simp only: a)
qed

lemma round_int_scale: "round_int (k * 2 ^ j) = round_int k * 2 ^ j"
proof (cases "k < 0")
  case True
  then have neg: "k * 2 ^ j < 0" by (simp add: mult_less_0_iff)
  have "- (k * 2 ^ j) = (- k) * 2 ^ j" by simp
  moreover have "nat ((- k) * 2 ^ j) = nat (- k) * nat (2 ^ j)"
    using True by (intro nat_mult_distrib) simp
  moreover have "nat ((2::int) ^ j) = 2 ^ j" by (simp add: nat_power_eq)
  ultimately have "nat (- (k * 2 ^ j)) = nat (- k) * 2 ^ j" by simp
  with True neg show ?thesis by (simp add: round_int_def round_mag_scale)
next
  case False
  then have nonneg: "\<not> k * 2 ^ j < 0" by (simp add: mult_less_0_iff)
  have "nat (k * 2 ^ j) = nat k * nat (2 ^ j)"
    using False by (intro nat_mult_distrib) simp
  moreover have "nat ((2::int) ^ j) = 2 ^ j" by (simp add: nat_power_eq)
  ultimately have "nat (k * 2 ^ j) = nat k * 2 ^ j" by simp
  with False nonneg show ?thesis by (simp add: round_int_def round_mag_scale)
qed

lemma round_int_whole: "\<bar>n\<bar> \<le> 2 ^ 53 \<Longrightarrow> round_int n = n"
proof (cases "n < 0")
  case True
  assume "\<bar>n\<bar> \<le> 2 ^ 53"
  with True have "nat (- n) \<le> 2 ^ 53" by (simp add: nat_le_iff)
  then have "round_mag (nat (- n)) = nat (- n)" by (rule round_mag_whole)
  with True show ?thesis by (simp add: round_int_def)
next
  case False
  assume "\<bar>n\<bar> \<le> 2 ^ 53"
  with False have "nat n \<le> 2 ^ 53" by (simp add: nat_le_iff)
  then have "round_mag (nat n) = nat n" by (rule round_mag_whole)
  with False show ?thesis by (simp add: round_int_def)
qed

lemma below_overflow:
  "\<bar>r::int\<bar> \<le> 2 ^ 53 \<Longrightarrow> \<not> 2 ^ (1024 + unit_exp) \<le> \<bar>r * 2 ^ unit_exp\<bar>"
proof -
  assume b: "\<bar>r\<bar> \<le> (2::int) ^ 53"
  have "(2::int) ^ 53 < 2 ^ 1024" by (rule power_strict_increasing) simp_all
  with b have "\<bar>r\<bar> < 2 ^ 1024" by (rule le_less_trans)
  then have "\<bar>r\<bar> * 2 ^ unit_exp < 2 ^ 1024 * 2 ^ unit_exp"
    by (rule mult_strict_right_mono) simp
  then show ?thesis by (simp only: abs_mult abs_power2 power_add not_le) simp
qed

lemma round_double_scaled:
  "\<bar>round_int k\<bar> \<le> 2 ^ 53 \<Longrightarrow>
   round_double (k * 2 ^ unit_exp) = Finite (round_int k * 2 ^ unit_exp)"
  using below_overflow [of "round_int k"]
  by (simp only: round_double_def round_int_scale Let_def if_False)

lemma round_double_whole:
  "\<bar>n\<bar> \<le> 2 ^ 53 \<Longrightarrow> round_double (n * 2 ^ unit_exp) = Finite (n * 2 ^ unit_exp)"
  using round_double_scaled [of n] by (simp add: round_int_whole)

lemma js_add_Finite: "js_add (Finite a) (Finite b) = round_double (a + b)"
  by (simp add: js_add_def)

lemma js_add_whole:
  "\<bar>a + b\<bar> \<le> 2 ^ 53 \<Longrightarrow> js_add (js_int a) (js_int b) = js_int (a + b)"
  using round_double_whole [of "a + b"]
  by (simp add: js_int_def js_add_Finite distrib_right)

lemma foldl_js_add_exact:
  "\<forall>j\<le>length ks. round_double (k0 + sum_list (take j ks)) = Finite (k0 + sum_list (take j ks)) \<Longrightarrow>
   foldl js_add (Finite k0) (map Finite ks) = Finite (k0 + sum_list ks)"
proof (induction ks arbitrary: k0)
  case Nil
  then show ?case by simp
next
  case (Cons k ks)
  from Cons.prems have "round_double (k0 + sum_list (take 1 (k # ks))) = Finite (k0 + sum_list (take 1 (k # ks)))"
    by (elim allE [of _ 1]) simp
  then have step: "js_add (Finite k0) (Finite k) = Finite (k0 + k)"
    by (simp add: js_add_Finite)
  have "\<forall>j\<le>length ks. round_double ((k0 + k) + sum_list (take j ks)) = Finite ((k0 + k) + sum_list (take j ks))"
  proof (intro allI impI)
    fix j assume "j \<le> length ks"
    then have "Suc j \<le> length (k # ks)" by simp
    with Cons.prems have "round_double (k0 + sum_list (take (Suc j) (k # ks))) = Finite (k0 + sum_list (take (Suc j) (k # ks)))"
      by blast
    then show "round_double ((k0 + k) + sum_list (take j ks)) = Finite ((k0 + k) + sum_list (take j ks))"
      by (simp add: add.assoc)
  qed
  then have "foldl js_add (Finite (k0 + k)) (map Finite ks) = Finite ((k0 + k) + sum_list ks)"
    by (rule Cons.IH)
  with step show ?case by (simp add: add.assoc)
qed

lemma foldl_js_add_whole:
  "\<forall>j\<le>length ns. \<bar>sum_list (take j ns)\<bar> \<le> 2 ^ 53 \<Longrightarrow>
   foldl js_add (Finite 0) (map js_int ns) = js_int (sum_list ns)"
proof -
  assume b: "\<forall>j\<le>length ns. \<bar>sum_list (take j ns)\<bar> \<le> 2 ^ 53"
  let ?ks = "map (\<lambda>n. n * 2 ^ unit_exp) ns"
  have sums: "sum_list (take j ?ks) = sum_list (take j ns) * 2 ^ unit_exp" for j
    by (simp add: take_map sum_list_mult_const)
  have "\<forall>j\<le>length ?ks. round_double (0 + sum_list (take j ?ks)) = Finite (0 + sum_list (take j ?ks))"
    using b by (simp add: sums round_double_whole)
  then have "foldl js_add (Finite 0) (map Finite ?ks) = Finite (0 + sum_list ?ks)"
    by (rule foldl_js_add_exact)
  moreover have "map Finite ?ks = map js_int ns" by (simp add: js_int_def)
  moreover have "sum_list ?ks = sum_list ns * 2 ^ unit_exp" by (simp add: sum_list_mult_const)
  ultimately show ?thesis by (simp only: js_int_def add_0)
qed

lemma round_int_above: "round_int (2 ^ 53 + 1) = 2 ^ 53"
proof -
  have "bit_length (2 ^ 53 + 1) = Suc 53" by (rule bit_length_eq) simp_all
  then have "round_mag (2 ^ 53 + 1) = 2 ^ 53"
    by (simp add: round_mag_def)
  then show ?thesis by (simp add: round_int_def)
qed

lemma js_add_rounds: "js_add (js_int (2 ^ 53)) (js_int 1) = js_int (2 ^ 53)"
proof -
  have "round_double ((2 ^ 53 + 1) * 2 ^ unit_exp) = Finite (round_int (2 ^ 53 + 1) * 2 ^ unit_exp)"
    by (rule round_double_scaled) (simp only: round_int_above, simp)
  then show ?thesis
    by (simp only: js_int_def js_add_Finite round_int_above distrib_right mult_1)
qed

lemma js_int_0: "js_int 0 = Finite 0"
  by (simp add: js_int_def)

lemma js_int_inject: "js_int a = js_int b \<longleftrightarrow> a = b"
  by (simp add: js_int_def)

lemma round_double_dyadic:
  assumes "j \<le> unit_exp" and "\<bar>round_int k\<bar> < 2 ^ 1024"
  shows "round_double (k * 2 ^ j) = Finite (round_int k * 2 ^ j)"
proof -
  have "\<bar>round_int k\<bar> * 2 ^ j < 2 ^ 1024 * (2::int) ^ j"
    using assms(2) by (rule mult_strict_right_mono) simp
  also have "(2::int) ^ 1024 * 2 ^ j \<le> 2 ^ 1024 * 2 ^ unit_exp"
    using assms(1) by (intro mult_left_mono power_increasing) simp_all
  finally have "\<not> 2 ^ (1024 + unit_exp) \<le> \<bar>round_int k * 2 ^ j\<bar>"
    by (simp only: abs_mult abs_power2 power_add not_le) simp
  then show ?thesis
    by (simp only: round_double_def round_int_scale Let_def if_False)
qed

text \<open>
  A sum of fractions. The double nearest to 0.1 is 7205759403792794 times 2 to the power
  -56, that is times 2 to the power 1018 in the unit of \<open>Finite\<close>, and the one nearest
  to 0.2 is twice that. Their exact sum needs 55 bits and lies half way between two
  doubles; it goes to the one with the even significand, 21617278211378384 times 2 to
  the power -56, which prints as 0.30000000000000004.
\<close>

lemma round_int_tenths: "round_int (7205759403792794 + 14411518807585588) = 21617278211378384"
proof -
  have "bit_length 21617278211378382 = Suc 54" by (rule bit_length_eq) simp_all
  then have "round_mag 21617278211378382 = 21617278211378384"
    by (simp add: round_mag_def)
  then show ?thesis by (simp add: round_int_def)
qed

lemma js_add_tenths:
  "js_add (Finite (7205759403792794 * 2 ^ 1018)) (Finite (14411518807585588 * 2 ^ 1018)) =
     Finite (21617278211378384 * 2 ^ 1018)"
proof -
  have "(1018::nat) \<le> unit_exp" by (simp add: unit_exp_def)
  moreover have "\<bar>round_int (7205759403792794 + 14411518807585588)\<bar> < 2 ^ 1024"
  proof -
    have "(21617278211378384::int) < 2 ^ 55" by simp
    also have "(2::int) ^ 55 < 2 ^ 1024" by (rule power_strict_increasing) simp_all
    finally show ?thesis by (simp only: round_int_tenths abs_numeral)
  qed
  ultimately have "round_double ((7205759403792794 + 14411518807585588) * 2 ^ 1018) =
      Finite (round_int (7205759403792794 + 14411518807585588) * 2 ^ 1018)"
    by (rule round_double_dyadic)
  then show ?thesis
    by (simp only: js_add_Finite distrib_right round_int_tenths)
qed

subsection \<open>Running the operations\<close>

lemmas js_defs = ret_def throw_def and_then_def try_catch_def try_finally_def await_def
  emit_def call_def toast_success_def toast_error_def console_error_def
  setStats_def setRecentActivities_def setAlerts_def setAlerts_prev_def setIsLoading_def
  setError_def

lemma loadDashboardData_split:
  "loadDashboardData rs w =
     (case loadDashboardData_begin w of
        (Inl e, w') \<Rightarrow> (Inl e, w')
      | (Inr _, w') \<Rightarrow> loadDashboardData_resume rs w')"
  by (simp add: loadDashboardData_def loadDashboardData_begin_def loadDashboardData_resume_def
      issue_reads_def setIsLoading_def setError_def call_def emit_def try_finally_def
      try_catch_def and_then_def split: prod.splits sum.splits)

lemma issue_reads_run:
  "issue_reads w = (Inr (), w\<lparr>trace := trace w @ [Call ContactGetAll, Call DealGetAll, Call TaskGetAll, Call ActivityGetAll, Call AlertGetAll]\<rparr>)"
  by (simp add: issue_reads_def js_defs)

lemma await_all_fulfilled:
  "await_all (fulfilled cs ds ts acts als) w = (Inr (cs, ds, ts, acts, als), w)"
  by (simp add: await_all_def fulfilled_def js_defs)

lemma some_read_rejects_first: "some_read_rejects rs \<Longrightarrow> \<exists>e. first_rejection rs = Some e"
  by (auto simp: some_read_rejects_def first_rejection_def split: sum.splits)

lemma await_all_rejected:
  "first_rejection rs = Some e \<Longrightarrow> await_all rs w = (Inl e, w)"
  by (auto simp: await_all_def first_rejection_def js_defs split: sum.splits)

lemma loadDashboardData_begin_run:
  "loadDashboardData_begin w =
     (Inr (), \<lparr>view = (view w)\<lparr>isLoading := True, error := ''''\<rparr>,
               trace = trace w @ [SetIsLoading True, SetError '''', Call ContactGetAll, Call DealGetAll,
                 Call TaskGetAll, Call ActivityGetAll, Call AlertGetAll]\<rparr>)"
  by (simp add: loadDashboardData_begin_def issue_reads_run js_defs)

lemma loadDashboardData_resume_rejected:
  "first_rejection rs = Some e \<Longrightarrow>
   loadDashboardData_resume rs w =
     (Inr (), \<lparr>view = (view w)\<lparr>isLoading := False, error := ''Failed to load dashboard data''\<rparr>,
               trace = trace w @ [SetError ''Failed to load dashboard data'',
                 ConsoleError ''Dashboard error:'' e, SetIsLoading False]\<rparr>)"
  by (simp add: loadDashboardData_resume_def await_all_rejected load_catch_def js_defs)

lemma loadDashboardData_fulfilled:
  "loadDashboardData (fulfilled cs ds ts acts als) w =
     (Inr (),
      \<lparr>view = (view w)\<lparr>
         stats := \<lparr>totalContacts = length cs,
            totalDeals = length (filter (\<lambda>deal. \<not> array_includes [''Won'', ''Lost''] (deal_stage deal)) ds),
            pipelineValue = foldl (\<lambda>sum deal. js_add sum (deal_value deal)) (Finite 0)
              (filter (\<lambda>deal. \<not> array_includes [''Won'', ''Lost''] (deal_stage deal)) ds),
            completedTasks = length (filter (\<lambda>task. completed task) ts)\<rparr>,
         recentActivities := take 10 (array_sort (\<lambda>a b. timestamp b - timestamp a) acts),
         alerts := als, isLoading := False, error := ''''\<rparr>,
       trace = trace w @ [SetIsLoading True, SetError '''', Call ContactGetAll, Call DealGetAll,
         Call TaskGetAll, Call ActivityGetAll, Call AlertGetAll,
         SetStats \<lparr>totalContacts = length cs,
            totalDeals = length (filter (\<lambda>deal. \<not> array_includes [''Won'', ''Lost''] (deal_stage deal)) ds),
            pipelineValue = foldl (\<lambda>sum deal. js_add sum (deal_value deal)) (Finite 0)
              (filter (\<lambda>deal. \<not> array_includes [''Won'', ''Lost''] (deal_stage deal)) ds),
            completedTasks = length (filter (\<lambda>task. completed task) ts)\<rparr>,
         SetRecentActivities (take 10 (array_sort (\<lambda>a b. timestamp b - timestamp a) acts)),
         SetAlerts als, SetIsLoading False]\<rparr>)"
  by (simp add: loadDashboardData_split loadDashboardData_begin_run
      loadDashboardData_resume_def await_all_fulfilled load_apply_def Let_def js_defs)

lemma foldl_deal_value:
  "foldl (\<lambda>sum deal. js_add sum (deal_value deal)) a ds = foldl js_add a (map deal_value ds)"
  by (induction ds arbitrary: a) simp_all

lemma not_terminal_stage:
  "(\<not> array_includes [''Won'', ''Lost''] s) = (s \<noteq> ''Won'' \<and> s \<noteq> ''Lost'')"
  by (auto simp: array_includes_def)

lemma reads_cases:
  "(\<exists>e. first_rejection rs = Some e) \<or> (\<exists>cs ds ts acts als. rs = fulfilled cs ds ts acts als)"
  by (cases rs) (auto simp: first_rejection_def fulfilled_def split: sum.splits)

lemma loadDashboardData_rejected:
  "first_rejection rs = Some e \<Longrightarrow>
   loadDashboardData rs w =
     (Inr (),
      \<lparr>view = (view w)\<lparr>isLoading := False, error := ''Failed to load dashboard data''\<rparr>,
       trace = trace w @ [SetIsLoading True, SetError '''', Call ContactGetAll, Call DealGetAll,
         Call TaskGetAll, Call ActivityGetAll, Call AlertGetAll,
         SetError ''Failed to load dashboard data'', ConsoleError ''Dashboard error:'' e,
         SetIsLoading False]\<rparr>)"
  by (simp add: loadDashboardData_split loadDashboardData_begin_run
      loadDashboardData_resume_rejected)

lemma loadDashboardData_trace_prefix:
  "\<exists>rest. trace (snd (loadDashboardData rs w)) =
     trace w @ [SetIsLoading True, SetError '''', Call ContactGetAll, Call DealGetAll,
       Call TaskGetAll, Call ActivityGetAll, Call AlertGetAll] @ rest"
  using reads_cases [of rs]
  by (auto simp: loadDashboardData_rejected loadDashboardData_fulfilled)

lemma handleDismissAlert_fulfilled:
  "handleDismissAlert alertId (Inr u) w =
     (Inr (),
      \<lparr>view = (view w)\<lparr>alerts := filter (\<lambda>alert. alert_Id alert \<noteq> alertId) (alerts (view w))\<rparr>,
       trace = trace w @ [Call (DismissAlert alertId),
         SetAlerts (filter (\<lambda>alert. alert_Id alert \<noteq> alertId) (alerts (view w))),
         ToastSuccess ''Alert dismissed'']\<rparr>)"
  by (simp add: handleDismissAlert_def js_defs)

lemma handleDismissAlert_rejected:
  "handleDismissAlert alertId (Inl e) w =
     (Inr (),
      \<lparr>view = view w,
       trace = trace w @ [Call (DismissAlert alertId),
         ConsoleError ''Dismiss alert error:'' e,
         ToastError ''Failed to dismiss alert'']\<rparr>)"
  by (simp add: handleDismissAlert_def js_defs)

lemma handleCompleteTask_fulfilled:
  "handleCompleteTask task_id (Inr u) w =
     (Inr (),
      \<lparr>view = (view w)\<lparr>alerts := filter (\<lambda>alert. taskId alert \<noteq> Some task_id) (alerts (view w)),
                       isLoading := True, error := ''''\<rparr>,
       trace = trace w @ [Call (CompleteTask task_id),
         SetAlerts (filter (\<lambda>alert. taskId alert \<noteq> Some task_id) (alerts (view w))),
         SetIsLoading True, SetError '''', Call ContactGetAll, Call DealGetAll,
         Call TaskGetAll, Call ActivityGetAll, Call AlertGetAll,
         ToastSuccess ''Task completed successfully'']\<rparr>)"
  by (simp add: handleCompleteTask_def loadDashboardData_begin_run js_defs)

lemma handleCompleteTask_rejected:
  "handleCompleteTask task_id (Inl e) w =
     (Inr (),
      \<lparr>view = view w,
       trace = trace w @ [Call (CompleteTask task_id),
         ConsoleError ''Complete task error:'' e,
         ToastError ''Failed to complete task'']\<rparr>)"
  by (simp add: handleCompleteTask_def js_defs)

lemma loadDashboardData_resume_fulfilled:
  "loadDashboardData_resume (fulfilled cs ds ts acts als) w =
     (Inr (),
      \<lparr>view = (view w)\<lparr>
         stats := \<lparr>totalContacts = length cs,
            totalDeals = length (filter (\<lambda>deal. \<not> array_includes [''Won'', ''Lost''] (deal_stage deal)) ds),
            pipelineValue = foldl (\<lambda>sum deal. js_add sum (deal_value deal)) (Finite 0)
              (filter (\<lambda>deal. \<not> array_includes [''Won'', ''Lost''] (deal_stage deal)) ds),
            completedTasks = length (filter (\<lambda>task. completed task) ts)\<rparr>,
         recentActivities := take 10 (array_sort (\<lambda>a b. timestamp b - timestamp a) acts),
         alerts := als, isLoading := False\<rparr>,
       trace = trace w @ [
         SetStats \<lparr>totalContacts = length cs,
            totalDeals = length (filter (\<lambda>deal. \<not> array_includes [''Won'', ''Lost''] (deal_stage deal)) ds),
            pipelineValue = foldl (\<lambda>sum deal. js_add sum (deal_value deal)) (Finite 0)
              (filter (\<lambda>deal. \<not> array_includes [''Won'', ''Lost''] (deal_stage deal)) ds),
            completedTasks = length (filter (\<lambda>task. completed task) ts)\<rparr>,
         SetRecentActivities (take 10 (array_sort (\<lambda>a b. timestamp b - timestamp a) acts)),
         SetAlerts als, SetIsLoading False]\<rparr>)"
  by (simp add: loadDashboardData_resume_def await_all_fulfilled load_apply_def Let_def js_defs)

lemma resume_no_calls: "\<exists>rest. trace (snd (loadDashboardData_resume rs w)) = trace w @ rest \<and> (\<forall>c. Call c \<notin> set rest)"
  using reads_cases [of rs]
  by (auto simp: loadDashboardData_resume_rejected loadDashboardData_resume_fulfilled)

lemma perform_recent:
  "length (recentActivities (view w)) \<le> 10 \<Longrightarrow>
   length (recentActivities (view (perform op w))) \<le> 10"
proof (cases op)
  case (LoadOp rs)
  assume "length (recentActivities (view w)) \<le> 10"
  then show ?thesis using reads_cases [of rs]
    by (auto simp: LoadOp loadDashboardData_rejected loadDashboardData_fulfilled)
next
  case (DismissOp x outcome)
  assume "length (recentActivities (view w)) \<le> 10"
  then show ?thesis
    by (cases outcome) (simp_all add: DismissOp handleDismissAlert_fulfilled handleDismissAlert_rejected)
next
  case (CompleteOp x outcome rs)
  assume "length (recentActivities (view w)) \<le> 10"
  then show ?thesis using reads_cases [of rs]
    by (cases outcome)
      (auto simp: CompleteOp completeTask_and_reload_def and_then_def ret_def
        handleCompleteTask_fulfilled handleCompleteTask_rejected
        loadDashboardData_resume_rejected loadDashboardData_resume_fulfilled)
qed

lemma run_ops_recent:
  "length (recentActivities (view w)) \<le> 10 \<Longrightarrow>
   length (recentActivities (view (run_ops ops w))) \<le> 10"
  unfolding run_ops_def
  by (induction ops arbitrary: w) (simp_all add: perform_recent)

subsection \<open>Sorting\<close>

lemma set_sort_place: "set (sort_place cmp a bs) = insert a (set bs)"
  by (induction bs) auto

lemma length_sort_place: "length (sort_place cmp a bs) = Suc (length bs)"
  by (induction bs) auto

lemma set_array_sort: "set (array_sort cmp xs) = set xs"
  by (induction xs) (auto simp: set_sort_place)

lemma length_array_sort: "length (array_sort cmp xs) = length xs"
  by (induction xs) (auto simp: length_sort_place)

lemma sort_place_descending:
  "sorted_wrt (\<lambda>a b. timestamp b \<le> timestamp a) bs \<Longrightarrow>
   sorted_wrt (\<lambda>a b. timestamp b \<le> timestamp a)
     (sort_place (\<lambda>a b. timestamp b - timestamp a) x bs)"
  by (induction bs) (auto simp: set_sort_place)

lemma array_sort_descending:
  "sorted_wrt (\<lambda>a b. timestamp b \<le> timestamp a)
     (array_sort (\<lambda>a b. timestamp b - timestamp a) xs)"
  by (induction xs) (auto simp: sort_place_descending)

lemma distinct_map_sort_place:
  "distinct (map f (sort_place cmp a bs)) = (f a \<notin> f ` set bs \<and> distinct (map f bs))"
  by (induction bs) (auto simp: set_sort_place)

lemma distinct_map_array_sort:
  "distinct (map f (array_sort cmp xs)) = distinct (map f xs)"
  by (induction xs) (auto simp: distinct_map_sort_place set_array_sort)

lemma descending_strict:
  "sorted_wrt (\<lambda>a b. timestamp b \<le> timestamp a) xs \<Longrightarrow> distinct (map timestamp xs) \<Longrightarrow>
   sorted_wrt (\<lambda>a b. timestamp b < (timestamp a :: int)) xs"
proof (induction xs)
  case Nil
  then show ?case by simp
next
  case (Cons x xs)
  have "timestamp y < timestamp x" if "y \<in> set xs" for y
  proof -
    from Cons.prems(1) that have "timestamp y \<le> timestamp x" by simp
    moreover from Cons.prems(2) that have "timestamp y \<noteq> timestamp x"
      by (auto simp: image_iff)
    ultimately show ?thesis by simp
  qed
  with Cons show ?case by simp
qed

lemma recent_top:
  assumes d: "distinct (map timestamp acts)"
  defines "r \<equiv> take 10 (array_sort (\<lambda>a b. timestamp b - timestamp a) acts)"
  shows "length r = min (length acts) 10"
    and "set r \<subseteq> set acts"
    and "sorted_wrt (\<lambda>a b. timestamp b < timestamp a) r"
    and "\<forall>a\<in>set r. \<forall>b\<in>set acts - set r. timestamp b < timestamp a"
proof -
  let ?s = "array_sort (\<lambda>a b. timestamp b - timestamp a) acts"
  have ds: "distinct (map timestamp ?s)" using d by (simp add: distinct_map_array_sort)
  have st: "sorted_wrt (\<lambda>a b. timestamp b < timestamp a) ?s"
    using array_sort_descending ds by (rule descending_strict)
  show "length r = min (length acts) 10" by (simp add: r_def length_array_sort)
  show "set r \<subseteq> set acts" using set_take_subset [of 10 ?s] by (simp add: r_def set_array_sort)
  have split: "?s = r @ drop 10 ?s" by (simp add: r_def)
  from st split have st': "sorted_wrt (\<lambda>a b. timestamp b < timestamp a) (r @ drop 10 ?s)" by simp
  then show "sorted_wrt (\<lambda>a b. timestamp b < timestamp a) r" by (simp add: sorted_wrt_append)
  show "\<forall>a\<in>set r. \<forall>b\<in>set acts - set r. timestamp b < timestamp a"
  proof (intro ballI)
    fix a b assume a: "a \<in> set r" and b: "b \<in> set acts - set r"
    have "set acts = set r \<union> set (drop 10 ?s)"
      using split set_append [of r "drop 10 ?s"] by (simp add: set_array_sort)
    with b have "b \<in> set (drop 10 ?s)" by auto
    with a st' show "timestamp b < timestamp a" by (simp add: sorted_wrt_append)
  qed
qed

section \<open>The claims\<close>

subsection \<open>The statistics the loader computes\<close>

text \<open>
  C1. When the five reads are fulfilled, the active-deal count the loader stores is the
  number of deals whose stage is neither "Won" nor "Lost", whatever the other
  collections and the state before are. The pipeline value is the values of exactly
  those deals added from 0, left to right in list order, in double arithmetic. It is
  their exact sum when every partial sum is itself a double, as it is for whole values
  as long as no partial sum exceeds 2 to the power 53 in magnitude. For the deals of
  value 100 in stage "Open", 50 in stage "Won" and 30 in stage "Negotiation" the count is
  2 and the pipeline value 130.
\<close>

theorem C1_active_deals:
  "totalDeals (stats (view (snd (loadDashboardData (fulfilled cs ds ts acts als) w)))) =
     length (filter (\<lambda>d. deal_stage d \<noteq> ''Won'' \<and> deal_stage d \<noteq> ''Lost'') ds)
   \<and> pipelineValue (stats (view (snd (loadDashboardData (fulfilled cs ds ts acts als) w)))) =
     foldl js_add (Finite 0) (map deal_value (filter (\<lambda>d. deal_stage d \<noteq> ''Won'' \<and> deal_stage d \<noteq> ''Lost'') ds))
   \<and> (map deal_value (filter (\<lambda>d. deal_stage d \<noteq> ''Won'' \<and> deal_stage d \<noteq> ''Lost'') ds) = map Finite ks
        \<and> (\<forall>j\<le>length ks. round_double (sum_list (take j ks)) = Finite (sum_list (take j ks)))
      \<longrightarrow> pipelineValue (stats (view (snd (loadDashboardData (fulfilled cs ds ts acts als) w)))) = Finite (sum_list ks))
   \<and> (map deal_value (filter (\<lambda>d. deal_stage d \<noteq> ''Won'' \<and> deal_stage d \<noteq> ''Lost'') ds) = map js_int ns
        \<and> (\<forall>j\<le>length ns. \<bar>sum_list (take j ns)\<bar> \<le> 2 ^ 53)
      \<longrightarrow> pipelineValue (stats (view (snd (loadDashboardData (fulfilled cs ds ts acts als) w)))) = js_int (sum_list ns))
   \<and> totalDeals (stats (view (snd (loadDashboardData
        (fulfilled cs'
           [\<lparr>deal_value = js_int 100, deal_stage = ''Open''\<rparr>,
            \<lparr>deal_value = js_int 50, deal_stage = ''Won''\<rparr>,
            \<lparr>deal_value = js_int 30, deal_stage = ''Negotiation''\<rparr>] ts' acts' als') w')))) = 2
   \<and> pipelineValue (stats (view (snd (loadDashboardData
        (fulfilled cs'
           [\<lparr>deal_value = js_int 100, deal_stage = ''Open''\<rparr>,
            \<lparr>deal_value = js_int 50, deal_stage = ''Won''\<rparr>,
            \<lparr>deal_value = js_int 30, deal_stage = ''Negotiation''\<rparr>] ts' acts' als') w')))) = js_int 130"
proof -
  let ?active = "filter (\<lambda>d. deal_stage d \<noteq> ''Won'' \<and> deal_stage d \<noteq> ''Lost'') ds"
  have fold: "pipelineValue (stats (view (snd (loadDashboardData (fulfilled cs ds ts acts als) w)))) = foldl js_add (Finite 0) (map deal_value ?active)"
    by (simp add: loadDashboardData_fulfilled foldl_deal_value not_terminal_stage)
  have exact: "pipelineValue (stats (view (snd (loadDashboardData (fulfilled cs ds ts acts als) w)))) = Finite (sum_list ks)"
    if "map deal_value ?active = map Finite ks"
      and "\<forall>j\<le>length ks. round_double (sum_list (take j ks)) = Finite (sum_list (take j ks))"
  proof -
    from that(2) have "foldl js_add (Finite 0) (map Finite ks) = Finite (0 + sum_list ks)"
      by (intro foldl_js_add_exact) simp
    with fold that(1) show ?thesis by simp
  qed
  have whole: "pipelineValue (stats (view (snd (loadDashboardData (fulfilled cs ds ts acts als) w)))) = js_int (sum_list ns)"
    if "map deal_value ?active = map js_int ns"
      and "\<forall>j\<le>length ns. \<bar>sum_list (take j ns)\<bar> \<le> 2 ^ 53"
    using fold that(1) foldl_js_add_whole [OF that(2)] by simp
  have example: "js_add (js_add (Finite 0) (js_int 100)) (js_int 30) = js_int 130"
    using js_add_whole [of 0 100] js_add_whole [of 100 30] by (simp add: js_int_0)
  show ?thesis
    using exact whole example
    by (simp add: loadDashboardData_fulfilled foldl_deal_value not_terminal_stage)
qed

text \<open>The deals of the example: the two active values are whole, and the partial sums 0, 100 and 130 are small.\<close>

theorem C1_active_deals_witness:
  "map deal_value (filter (\<lambda>d. deal_stage d \<noteq> ''Won'' \<and> deal_stage d \<noteq> ''Lost'')
       [\<lparr>deal_value = js_int 100, deal_stage = ''Open''\<rparr>,
            \<lparr>deal_value = js_int 50, deal_stage = ''Won''\<rparr>,
            \<lparr>deal_value = js_int 30, deal_stage = ''Negotiation''\<rparr>]) = map js_int [100, 30]
   \<and> \<bar>sum_list (take 0 [100, 30 :: int])\<bar> \<le> 2 ^ 53
   \<and> \<bar>sum_list (take 1 [100, 30 :: int])\<bar> \<le> 2 ^ 53
   \<and> \<bar>sum_list (take 2 [100, 30 :: int])\<bar> \<le> 2 ^ 53
   \<and> totalDeals (stats (view (snd (loadDashboardData
        (fulfilled []
           [\<lparr>deal_value = js_int 100, deal_stage = ''Open''\<rparr>,
            \<lparr>deal_value = js_int 50, deal_stage = ''Won''\<rparr>,
            \<lparr>deal_value = js_int 30, deal_stage = ''Negotiation''\<rparr>] [] [] []) initial_world)))) = 2
   \<and> pipelineValue (stats (view (snd (loadDashboardData
        (fulfilled []
           [\<lparr>deal_value = js_int 100, deal_stage = ''Open''\<rparr>,
            \<lparr>deal_value = js_int 50, deal_stage = ''Won''\<rparr>,
            \<lparr>deal_value = js_int 30, deal_stage = ''Negotiation''\<rparr>] [] [] []) initial_world)))) = js_int (sum_list [100, 30])"
proof -
  have sums: "\<forall>j\<le>length [100, 30 :: int]. \<bar>sum_list (take j [100, 30 :: int])\<bar> \<le> 2 ^ 53"
    by (auto simp: take_Cons')
  have vals: "map deal_value (filter (\<lambda>d. deal_stage d \<noteq> ''Won'' \<and> deal_stage d \<noteq> ''Lost'')
       [\<lparr>deal_value = js_int 100, deal_stage = ''Open''\<rparr>,
            \<lparr>deal_value = js_int 50, deal_stage = ''Won''\<rparr>,
            \<lparr>deal_value = js_int 30, deal_stage = ''Negotiation''\<rparr>]) = map js_int [100, 30]"
    by simp
  from C1_active_deals [of "[]" "[\<lparr>deal_value = js_int 100, deal_stage = ''Open''\<rparr>,
            \<lparr>deal_value = js_int 50, deal_stage = ''Won''\<rparr>,
            \<lparr>deal_value = js_int 30, deal_stage = ''Negotiation''\<rparr>]" "[]" "[]" "[]" initial_world _ "[100, 30]"] sums vals
  show ?thesis by simp
qed

text \<open>
  As the claim is written, with the pipeline value the exact sum for every list of
  deals, it fails on two active deals of value 2 to the power 53 and 1: the number stored
  is 2 to the power 53, since the exact sum is no double and the tie goes to the even
  significand, and that is not the sum of the two values.
\<close>

theorem C1_exact_sum_counterexample:
  "pipelineValue (stats (view (snd (loadDashboardData
       (fulfilled []
         [\<lparr>deal_value = js_int (2 ^ 53), deal_stage = ''Open''\<rparr>,
          \<lparr>deal_value = js_int 1, deal_stage = ''Open''\<rparr>] [] [] []) initial_world)))) = js_int (2 ^ 53)
   \<and> units (pipelineValue (stats (view (snd (loadDashboardData
       (fulfilled []
         [\<lparr>deal_value = js_int (2 ^ 53), deal_stage = ''Open''\<rparr>,
          \<lparr>deal_value = js_int 1, deal_stage = ''Open''\<rparr>] [] [] []) initial_world))))) \<noteq> units (js_int (2 ^ 53)) + units (js_int 1)"
proof -
  have first: "js_add (Finite 0) (js_int (2 ^ 53)) = js_int (2 ^ 53)"
    using js_add_whole [of 0 "2 ^ 53"] by (simp only: js_int_0 add_0) simp
  have stored: "pipelineValue (stats (view (snd (loadDashboardData
       (fulfilled []
         [\<lparr>deal_value = js_int (2 ^ 53), deal_stage = ''Open''\<rparr>,
          \<lparr>deal_value = js_int 1, deal_stage = ''Open''\<rparr>] [] [] []) initial_world)))) = js_add (js_add (Finite 0) (js_int (2 ^ 53))) (js_int 1)"
    by (simp add: loadDashboardData_fulfilled array_includes_def)
  have rounded: "pipelineValue (stats (view (snd (loadDashboardData
       (fulfilled []
         [\<lparr>deal_value = js_int (2 ^ 53), deal_stage = ''Open''\<rparr>,
          \<lparr>deal_value = js_int 1, deal_stage = ''Open''\<rparr>] [] [] []) initial_world)))) = js_int (2 ^ 53)"
    by (simp only: stored first js_add_rounds)
  have "(2::int) ^ 53 * 2 ^ unit_exp \<noteq> 2 ^ 53 * 2 ^ unit_exp + 1 * 2 ^ unit_exp"
    by simp
  then have "units (js_int (2 ^ 53)) \<noteq> units (js_int (2 ^ 53)) + units (js_int 1)"
    by (simp only: js_int_def units.simps simp_thms)
  with rounded show ?thesis by (simp only: simp_thms)
qed

text \<open>
  C6. When the five reads are fulfilled, the completed-task count the loader stores is
  the number of tasks whose completed flag is true.
\<close>

theorem C6_completed_tasks:
  "completedTasks (stats (view (snd (loadDashboardData (fulfilled cs ds ts acts als) w)))) =
     length (filter (\<lambda>t. completed t = True) ts)"
  by (simp add: loadDashboardData_fulfilled)

subsection \<open>The recent activities\<close>

text \<open>
  C2. When the five reads are fulfilled and the N activities have pairwise distinct
  timestamps, the recent activities the loader stores are min(N, 10) of the activities,
  in strictly descending order of timestamp, and every activity left out is older than
  every activity kept.
\<close>

theorem C2_recent_activities:
  assumes "distinct (map timestamp acts)"
  shows "let r = recentActivities (view (snd (loadDashboardData (fulfilled cs ds ts acts als) w)))
         in length r = min (length acts) 10
          \<and> set r \<subseteq> set acts
          \<and> sorted_wrt (\<lambda>a b. timestamp b < timestamp a) r
          \<and> (\<forall>a\<in>set r. \<forall>b\<in>set acts - set r. timestamp b < timestamp a)"
  using recent_top [OF assms] by (simp add: loadDashboardData_fulfilled Let_def)

text \<open>Twelve activities out of order: the two oldest, with identifiers 3 and 9, are left out.\<close>

theorem C2_recent_activities_witness:
  "distinct (map timestamp
     [\<lparr>activity_Id = 1, timestamp = 50\<rparr>, \<lparr>activity_Id = 2, timestamp = 120\<rparr>,
      \<lparr>activity_Id = 3, timestamp = 10\<rparr>, \<lparr>activity_Id = 4, timestamp = 70\<rparr>,
      \<lparr>activity_Id = 5, timestamp = 30\<rparr>, \<lparr>activity_Id = 6, timestamp = 110\<rparr>,
      \<lparr>activity_Id = 7, timestamp = 90\<rparr>, \<lparr>activity_Id = 8, timestamp = 40\<rparr>,
      \<lparr>activity_Id = 9, timestamp = 20\<rparr>, \<lparr>activity_Id = 10, timestamp = 100\<rparr>,
      \<lparr>activity_Id = 11, timestamp = 60\<rparr>, \<lparr>activity_Id = 12, timestamp = 80\<rparr>])
   \<and> (let r = recentActivities (view (snd (loadDashboardData (fulfilled [] [] []
     [\<lparr>activity_Id = 1, timestamp = 50\<rparr>, \<lparr>activity_Id = 2, timestamp = 120\<rparr>,
      \<lparr>activity_Id = 3, timestamp = 10\<rparr>, \<lparr>activity_Id = 4, timestamp = 70\<rparr>,
      \<lparr>activity_Id = 5, timestamp = 30\<rparr>, \<lparr>activity_Id = 6, timestamp = 110\<rparr>,
      \<lparr>activity_Id = 7, timestamp = 90\<rparr>, \<lparr>activity_Id = 8, timestamp = 40\<rparr>,
      \<lparr>activity_Id = 9, timestamp = 20\<rparr>, \<lparr>activity_Id = 10, timestamp = 100\<rparr>,
      \<lparr>activity_Id = 11, timestamp = 60\<rparr>, \<lparr>activity_Id = 12, timestamp = 80\<rparr>] [])
       initial_world)))
     in length r = 10
      \<and> map activity_Id r = [2, 6, 10, 7, 12, 4, 11, 1, 8, 5]
      \<and> sorted_wrt (\<lambda>a b. timestamp b < timestamp a) r)"
proof -
  let ?acts =
    "[\<lparr>activity_Id = 1, timestamp = 50\<rparr>, \<lparr>activity_Id = 2, timestamp = 120\<rparr>,
      \<lparr>activity_Id = 3, timestamp = 10\<rparr>, \<lparr>activity_Id = 4, timestamp = 70\<rparr>,
      \<lparr>activity_Id = 5, timestamp = 30\<rparr>, \<lparr>activity_Id = 6, timestamp = 110\<rparr>,
      \<lparr>activity_Id = 7, timestamp = 90\<rparr>, \<lparr>activity_Id = 8, timestamp = 40\<rparr>,
      \<lparr>activity_Id = 9, timestamp = 20\<rparr>, \<lparr>activity_Id = 10, timestamp = 100\<rparr>,
      \<lparr>activity_Id = 11, timestamp = 60\<rparr>, \<lparr>activity_Id = 12, timestamp = 80\<rparr>]"
  have d: "distinct (map timestamp ?acts)" by simp
  have ids: "map activity_Id (recentActivities (view (snd (loadDashboardData
      (fulfilled [] [] [] ?acts []) initial_world)))) = [2, 6, 10, 7, 12, 4, 11, 1, 8, 5]"
    by (simp add: loadDashboardData_fulfilled)
  from C2_recent_activities [OF d, of "[]" "[]" "[]" "[]" initial_world] d ids
  show ?thesis by (simp add: Let_def)
qed

subsection \<open>The loader's failure path and its loading flag\<close>

text \<open>
  C3. If any of the five reads is rejected, the loader completes normally with the one
  fixed error message set and the loading flag cleared, so that the error view is
  rendered; stats, recent activities and alerts are what they were before, and no
  setter of those three is called at all: the whole trace of the run is the two resets,
  the five reads, the error message, the console line and the final reset of the
  loading flag. The retry action run from that state issues the five reads again.
\<close>

theorem C3_failed_load:
  assumes "some_read_rejects rs"
  shows "fst (loadDashboardData rs w) = Inr ()
    \<and> error (view (snd (loadDashboardData rs w))) = ''Failed to load dashboard data''
    \<and> isLoading (view (snd (loadDashboardData rs w))) = False
    \<and> render (view (snd (loadDashboardData rs w))) = ErrorView ''Failed to load dashboard data''
    \<and> stats (view (snd (loadDashboardData rs w))) = stats (view w)
    \<and> recentActivities (view (snd (loadDashboardData rs w))) = recentActivities (view w)
    \<and> alerts (view (snd (loadDashboardData rs w))) = alerts (view w)
    \<and> (\<exists>reason. trace (snd (loadDashboardData rs w)) =
          trace w @ [SetIsLoading True, SetError '''', Call ContactGetAll, Call DealGetAll,
            Call TaskGetAll, Call ActivityGetAll, Call AlertGetAll,
            SetError ''Failed to load dashboard data'',
            ConsoleError ''Dashboard error:'' reason, SetIsLoading False])
    \<and> (\<exists>rest. trace (snd (onRetry rs' (snd (loadDashboardData rs w)))) =
          trace (snd (loadDashboardData rs w)) @
            [SetIsLoading True, SetError '''', Call ContactGetAll, Call DealGetAll,
             Call TaskGetAll, Call ActivityGetAll, Call AlertGetAll] @ rest)"
proof -
  from assms obtain e where e: "first_rejection rs = Some e"
    using some_read_rejects_first by blast
  have retry: "\<exists>rest. trace (snd (onRetry rs' (snd (loadDashboardData rs w)))) =
          trace (snd (loadDashboardData rs w)) @
            [SetIsLoading True, SetError '''', Call ContactGetAll, Call DealGetAll,
             Call TaskGetAll, Call ActivityGetAll, Call AlertGetAll] @ rest"
    unfolding onRetry_def by (rule loadDashboardData_trace_prefix)
  show ?thesis
    using retry by (simp add: loadDashboardData_rejected [OF e] render_def)
qed

text \<open>The task read is rejected, the other four are fulfilled.\<close>

theorem C3_failed_load_witness:
  "some_read_rejects
     \<lparr>contacts_read = Inr [\<lparr>contact_Id = 1\<rparr>], deals_read = Inr [],
      tasks_read = Inl ''503'', activities_read = Inr [], alerts_read = Inr []\<rparr>
   \<and> render (view (snd (loadDashboardData
        \<lparr>contacts_read = Inr [\<lparr>contact_Id = 1\<rparr>], deals_read = Inr [],
         tasks_read = Inl ''503'', activities_read = Inr [], alerts_read = Inr []\<rparr>
        initial_world))) = ErrorView ''Failed to load dashboard data''
   \<and> stats (view (snd (loadDashboardData
        \<lparr>contacts_read = Inr [\<lparr>contact_Id = 1\<rparr>], deals_read = Inr [],
         tasks_read = Inl ''503'', activities_read = Inr [], alerts_read = Inr []\<rparr>
        initial_world))) = stats initial_dashboard"
proof -
  let ?rs = "\<lparr>contacts_read = Inr [\<lparr>contact_Id = 1\<rparr>], deals_read = Inr [],
      tasks_read = Inl ''503'', activities_read = Inr [], alerts_read = Inr []\<rparr>"
  have h: "some_read_rejects ?rs" by (simp add: some_read_rejects_def)
  from C3_failed_load [OF h, of initial_world] h
  show ?thesis by (simp add: initial_world_def)
qed

text \<open>
  C8. Every run of the loader first sets the loading flag to true, then clears the error
  and issues the five reads; the flag is true when the loader reaches its await. The last
  thing the run does, on the success and on the failure path alike, is to set the flag
  to false; nothing in between touches the flag or issues a read, and the loader
  completes normally with the flag false.
\<close>

theorem C8_loading_flag:
  "isLoading (view (snd (loadDashboardData_begin w))) = True
   \<and> isLoading (view (snd (loadDashboardData rs w))) = False
   \<and> fst (loadDashboardData rs w) = Inr ()
   \<and> (\<exists>mid. trace (snd (loadDashboardData rs w)) =
         trace w @ [SetIsLoading True, SetError '''', Call ContactGetAll, Call DealGetAll,
           Call TaskGetAll, Call ActivityGetAll, Call AlertGetAll] @ mid @ [SetIsLoading False]
       \<and> (\<forall>b. SetIsLoading b \<notin> set mid) \<and> (\<forall>c. Call c \<notin> set mid))"
proof -
  have started: "isLoading (view (snd (loadDashboardData_begin w))) = True"
    by (simp add: loadDashboardData_begin_run)
  from reads_cases [of rs] show ?thesis
  proof (elim disjE exE)
    fix e assume e: "first_rejection rs = Some e"
    have "trace (snd (loadDashboardData rs w)) =
         trace w @ [SetIsLoading True, SetError '''', Call ContactGetAll, Call DealGetAll,
           Call TaskGetAll, Call ActivityGetAll, Call AlertGetAll] @
           [SetError ''Failed to load dashboard data'', ConsoleError ''Dashboard error:'' e]
           @ [SetIsLoading False]
       \<and> (\<forall>b. SetIsLoading b \<notin> set [SetError ''Failed to load dashboard data'', ConsoleError ''Dashboard error:'' e])
       \<and> (\<forall>c. Call c \<notin> set [SetError ''Failed to load dashboard data'', ConsoleError ''Dashboard error:'' e])"
      by (simp add: loadDashboardData_rejected [OF e])
    then have "\<exists>mid. trace (snd (loadDashboardData rs w)) =
         trace w @ [SetIsLoading True, SetError '''', Call ContactGetAll, Call DealGetAll,
           Call TaskGetAll, Call ActivityGetAll, Call AlertGetAll] @ mid @ [SetIsLoading False]
       \<and> (\<forall>b. SetIsLoading b \<notin> set mid) \<and> (\<forall>c. Call c \<notin> set mid)"
      by blast
    with started show ?thesis by (simp add: loadDashboardData_rejected [OF e])
  next
    fix cs ds ts acts als assume rs: "rs = fulfilled cs ds ts acts als"
    let ?mid = "[SetStats (stats (view (snd (loadDashboardData rs w)))),
        SetRecentActivities (recentActivities (view (snd (loadDashboardData rs w)))),
        SetAlerts als]"
    have "trace (snd (loadDashboardData rs w)) =
         trace w @ [SetIsLoading True, SetError '''', Call ContactGetAll, Call DealGetAll,
           Call TaskGetAll, Call ActivityGetAll, Call AlertGetAll] @ ?mid @ [SetIsLoading False]
       \<and> (\<forall>b. SetIsLoading b \<notin> set ?mid) \<and> (\<forall>c. Call c \<notin> set ?mid)"
      by (simp add: rs loadDashboardData_fulfilled)
    then have "\<exists>mid. trace (snd (loadDashboardData rs w)) =
         trace w @ [SetIsLoading True, SetError '''', Call ContactGetAll, Call DealGetAll,
           Call TaskGetAll, Call ActivityGetAll, Call AlertGetAll] @ mid @ [SetIsLoading False]
       \<and> (\<forall>b. SetIsLoading b \<notin> set mid) \<and> (\<forall>c. Call c \<notin> set mid)"
      by blast
    with started show ?thesis by (simp add: rs loadDashboardData_fulfilled)
  qed
qed

subsection \<open>Completing a task\<close>

text \<open>
  C4. For every task identifier, when the service call is fulfilled the handler replaces
  the alerts by those whose taskId is not that identifier, in their order, and starts
  the loader once: what the handler does is, in order, the service call, the alert
  update, the loader up to its await (the two resets and the five reads, each once) and
  the success toast. The rest of the reload issues no further read, and the view it
  leaves is the one a full run of the loader leaves from the state with the alerts
  removed. When the service call is rejected the handler leaves the view as it was,
  writes to the console and shows the failure toast, shows no success toast, issues no
  read and starts no reload. In both cases the handler completes normally.
\<close>

theorem C4_complete_task:
  "alerts (view (snd (handleCompleteTask task_id (Inr ()) w))) =
     filter (\<lambda>a. taskId a \<noteq> Some task_id) (alerts (view w))
   \<and> trace (snd (handleCompleteTask task_id (Inr ()) w)) =
       trace w @ [Call (CompleteTask task_id),
         SetAlerts (filter (\<lambda>a. taskId a \<noteq> Some task_id) (alerts (view w))),
         SetIsLoading True, SetError '''', Call ContactGetAll, Call DealGetAll,
         Call TaskGetAll, Call ActivityGetAll, Call AlertGetAll,
         ToastSuccess ''Task completed successfully'']
   \<and> (\<exists>rest. trace (snd (completeTask_and_reload task_id (Inr ()) rs w)) =
         trace (snd (handleCompleteTask task_id (Inr ()) w)) @ rest \<and> (\<forall>c. Call c \<notin> set rest))
   \<and> view (snd (completeTask_and_reload task_id (Inr ()) rs w)) =
       view (snd (loadDashboardData rs
         (w\<lparr>view := (view w)\<lparr>alerts := filter (\<lambda>a. taskId a \<noteq> Some task_id) (alerts (view w))\<rparr>\<rparr>)))
   \<and> fst (handleCompleteTask task_id (Inr ()) w) = Inr ()
   \<and> view (snd (handleCompleteTask task_id (Inl e) w)) = view w
   \<and> trace (snd (handleCompleteTask task_id (Inl e) w)) =
       trace w @ [Call (CompleteTask task_id), ConsoleError ''Complete task error:'' e,
         ToastError ''Failed to complete task'']
   \<and> completeTask_and_reload task_id (Inl e) rs w = handleCompleteTask task_id (Inl e) w
   \<and> fst (handleCompleteTask task_id (Inl e) w) = Inr ()"
proof -
  have reload: "\<exists>rest. trace (snd (completeTask_and_reload task_id (Inr ()) rs w)) =
         trace (snd (handleCompleteTask task_id (Inr ()) w)) @ rest \<and> (\<forall>c. Call c \<notin> set rest)"
    using resume_no_calls [of rs "snd (handleCompleteTask task_id (Inr ()) w)"]
    by (simp add: completeTask_and_reload_def and_then_def handleCompleteTask_fulfilled)
  have full: "view (snd (completeTask_and_reload task_id (Inr ()) rs w)) =
       view (snd (loadDashboardData rs
         (w\<lparr>view := (view w)\<lparr>alerts := filter (\<lambda>a. taskId a \<noteq> Some task_id) (alerts (view w))\<rparr>\<rparr>)))"
    using reads_cases [of rs]
    by (auto simp: completeTask_and_reload_def and_then_def handleCompleteTask_fulfilled
        loadDashboardData_resume_rejected loadDashboardData_resume_fulfilled
        loadDashboardData_rejected loadDashboardData_fulfilled)
  have no_reload: "completeTask_and_reload task_id (Inl e) rs w = handleCompleteTask task_id (Inl e) w"
    by (simp add: completeTask_and_reload_def and_then_def ret_def handleCompleteTask_rejected)
  show ?thesis
    using reload full no_reload
    by (simp add: handleCompleteTask_fulfilled handleCompleteTask_rejected)
qed

subsection \<open>Dismissing an alert\<close>

text \<open>
  C5. For every alert identifier X, when the service call is fulfilled the alerts after
  the dismissal are the alerts before without those whose Id is X, the others in place
  and in order. When exactly one entry has the Id X, the list loses that entry and
  nothing else.
\<close>

theorem C5_dismiss_removes:
  "alerts (view (snd (handleDismissAlert x (Inr ()) w))) =
     filter (\<lambda>a. alert_Id a \<noteq> x) (alerts (view w))
   \<and> (alerts (view w) = pre @ [a] @ post \<and> alert_Id a = x
        \<and> (\<forall>b\<in>set (pre @ post). alert_Id b \<noteq> x) \<longrightarrow>
      alerts (view (snd (handleDismissAlert x (Inr ()) w))) = pre @ post)"
  by (auto simp: handleDismissAlert_fulfilled filter_id_conv)

text \<open>Three alerts; the one in the middle, with Id 2, is dismissed.\<close>

theorem C5_dismiss_removes_witness:
  "alerts (view \<lparr>view = initial_dashboard\<lparr>alerts :=
       [\<lparr>alert_Id = 1, alert_type = ''task_overdue'', taskId = Some 7\<rparr>,
        \<lparr>alert_Id = 2, alert_type = ''contact_follow_up'', taskId = None\<rparr>,
        \<lparr>alert_Id = 3, alert_type = ''task_due_today'', taskId = Some 7\<rparr>]\<rparr>, trace = []\<rparr>) =
     [\<lparr>alert_Id = 1, alert_type = ''task_overdue'', taskId = Some 7\<rparr>] @
     [\<lparr>alert_Id = 2, alert_type = ''contact_follow_up'', taskId = None\<rparr>] @
     [\<lparr>alert_Id = 3, alert_type = ''task_due_today'', taskId = Some 7\<rparr>]
   \<and> alert_Id \<lparr>alert_Id = 2, alert_type = ''contact_follow_up'', taskId = None\<rparr> = 2
   \<and> alert_Id \<lparr>alert_Id = 1, alert_type = ''task_overdue'', taskId = Some 7\<rparr> \<noteq> 2
   \<and> alert_Id \<lparr>alert_Id = 3, alert_type = ''task_due_today'', taskId = Some 7\<rparr> \<noteq> 2
   \<and> alerts (view (snd (handleDismissAlert 2 (Inr ())
       \<lparr>view = initial_dashboard\<lparr>alerts :=
         [\<lparr>alert_Id = 1, alert_type = ''task_overdue'', taskId = Some 7\<rparr>,
          \<lparr>alert_Id = 2, alert_type = ''contact_follow_up'', taskId = None\<rparr>,
          \<lparr>alert_Id = 3, alert_type = ''task_due_today'', taskId = Some 7\<rparr>]\<rparr>, trace = []\<rparr>))) =
     [\<lparr>alert_Id = 1, alert_type = ''task_overdue'', taskId = Some 7\<rparr>,
      \<lparr>alert_Id = 3, alert_type = ''task_due_today'', taskId = Some 7\<rparr>]"
  using C5_dismiss_removes [of 2
      "\<lparr>view = initial_dashboard\<lparr>alerts :=
         [\<lparr>alert_Id = 1, alert_type = ''task_overdue'', taskId = Some 7\<rparr>,
          \<lparr>alert_Id = 2, alert_type = ''contact_follow_up'', taskId = None\<rparr>,
          \<lparr>alert_Id = 3, alert_type = ''task_due_today'', taskId = Some 7\<rparr>]\<rparr>, trace = []\<rparr>"
      "[\<lparr>alert_Id = 1, alert_type = ''task_overdue'', taskId = Some 7\<rparr>]"
      "\<lparr>alert_Id = 2, alert_type = ''contact_follow_up'', taskId = None\<rparr>"
      "[\<lparr>alert_Id = 3, alert_type = ''task_due_today'', taskId = Some 7\<rparr>]"]
  by simp

text \<open>
  C7. For every alert identifier, when the service call is rejected the view (alerts,
  stats, recent activities, loading flag and error) is what it was, the handler
  completes normally, so no exception leaves it, and what it does is the service call,
  a console line and the error toast.
\<close>

theorem C7_dismiss_failure:
  "view (snd (handleDismissAlert x (Inl e) w)) = view w
   \<and> fst (handleDismissAlert x (Inl e) w) = Inr ()
   \<and> trace (snd (handleDismissAlert x (Inl e) w)) =
       trace w @ [Call (DismissAlert x), ConsoleError ''Dismiss alert error:'' e,
         ToastError ''Failed to dismiss alert'']"
  by (simp add: handleDismissAlert_rejected)

text \<open>
  C9. Whether the service call is fulfilled or rejected, the dismissal leaves the stats,
  the recent activities, the loading flag and the error as they were.
\<close>

theorem C9_dismiss_frame:
  "stats (view (snd (handleDismissAlert x outcome w))) = stats (view w)
   \<and> recentActivities (view (snd (handleDismissAlert x outcome w))) = recentActivities (view w)
   \<and> isLoading (view (snd (handleDismissAlert x outcome w))) = isLoading (view w)
   \<and> error (view (snd (handleDismissAlert x outcome w))) = error (view w)"
  by (cases outcome) (simp_all add: handleDismissAlert_fulfilled handleDismissAlert_rejected)

subsection \<open>The bound on the recent activities\<close>

text \<open>
  C10. The recent activities are empty at the start and hold at most 10 entries after
  every sequence of loads, dismissals and task completions (each completion with the
  reload it starts), whatever the services answer. A successful load stores the first 10
  of the sorted activities; the dismissal and the completion handler leave the list as
  it was.
\<close>

theorem C10_recent_bound:
  "recentActivities (view initial_world) = []
   \<and> length (recentActivities (view (run_ops ops initial_world))) \<le> 10
   \<and> recentActivities (view (snd (loadDashboardData (fulfilled cs ds ts acts als) w))) =
       take 10 (array_sort (\<lambda>a b. timestamp b - timestamp a) acts)
   \<and> recentActivities (view (snd (handleDismissAlert x outcome w))) = recentActivities (view w)
   \<and> recentActivities (view (snd (handleCompleteTask y outcome w))) = recentActivities (view w)"
proof -
  have "length (recentActivities (view (run_ops ops initial_world))) \<le> 10"
    by (rule run_ops_recent) (simp add: initial_world_def initial_dashboard_def)
  moreover have "recentActivities (view (snd (handleDismissAlert x outcome w))) = recentActivities (view w)"
    by (cases outcome) (simp_all add: handleDismissAlert_fulfilled handleDismissAlert_rejected)
  moreover have "recentActivities (view (snd (handleCompleteTask y outcome w))) = recentActivities (view w)"
    by (cases outcome) (simp_all add: handleCompleteTask_fulfilled handleCompleteTask_rejected)
  ultimately show ?thesis
    by (simp add: initial_world_def initial_dashboard_def loadDashboardData_fulfilled)
qed

end
